theory Spec2Isabelle
  imports Main "HOL-Library.AList"
begin

section \<open>Values, classes and instances\<close>

text \<open>
  The repository is a Python program on top of the peewee ORM. A model class carries the
  class-level lists that \<^verbatim>\<open>BaseResource.__new__\<close> (src/ban/core/resource.py, lines 47-77)
  computes, and an instance carries its attribute values. Python values are a datatype;
  a related model instance is a value too (a foreign key read back as an object).
\<close>

datatype cls_attr =
    Column
  | ManyToManyField
  | ReverseRelationDescriptor
  | SelectQueryAttr
  | FalsyAttr
  | OtherAttr

record model_cls =
  cls_name :: string
  cls_attrs :: "(string \<times> cls_attr) list"
  resource_fields :: "string list"
  identifiers :: "string list"
  exclude_for_collection :: "string list"
  exclude_for_version :: "string list"

datatype pyval =
    PNone
  | PBool bool
  | PInt int
  | PStr string
  | PList "pyval list"
  | PDict "(string \<times> pyval) list"
  | PModel model_obj
and model_obj =
    Instance (inst_cls: model_cls) (inst_attrs: "(string \<times> pyval) list")

datatype error =
    DoesNotExist string
  | AttributeError string
  | IntegrityError
  | Conflict
  | ValidationError string

type_synonym pydict = "(string \<times> pyval) list"

text \<open>Python truthiness, as \<^verbatim>\<open>if new:\<close> and \<^verbatim>\<open>if not identifier:\<close> use it.\<close>

fun truthy :: "pyval \<Rightarrow> bool" where
  "truthy PNone = False"
| "truthy (PBool b) = b"
| "truthy (PInt i) = (i \<noteq> 0)"
| "truthy (PStr s) = (s \<noteq> [])"
| "truthy (PList xs) = (xs \<noteq> [])"
| "truthy (PDict d) = (d \<noteq> [])"
| "truthy (PModel m) = True"

text \<open>\<^verbatim>\<open>str.lower\<close> on the ASCII letters of a class name.\<close>

definition lower_char :: "char \<Rightarrow> char" where
  "lower_char c =
     (case map_of (zip ''ABCDEFGHIJKLMNOPQRSTUVWXYZ'' ''abcdefghijklmnopqrstuvwxyz'') c of
        None \<Rightarrow> c
      | Some l \<Rightarrow> l)"

definition lower :: "string \<Rightarrow> string" where
  "lower s = map lower_char s"

subsection \<open>The metaclass: inherited lists and derived field lists\<close>

text \<open>
  \<^verbatim>\<open>include_field_for_collection\<close> (lines 37-45): a name is kept for the collection view
  unless it is excluded, missing or falsy on the class, or a many-to-many field, a reverse
  relation or a query.
\<close>

definition include_field_for_collection :: "model_cls \<Rightarrow> string \<Rightarrow> bool" where
  "include_field_for_collection cls name =
     (if name \<in> set (exclude_for_collection cls) then False
      else (case map_of (cls_attrs cls) name of
              None \<Rightarrow> False
            | Some FalsyAttr \<Rightarrow> False
            | Some ManyToManyField \<Rightarrow> False
            | Some ReverseRelationDescriptor \<Rightarrow> False
            | Some SelectQueryAttr \<Rightarrow> False
            | Some _ \<Rightarrow> True))"

text \<open>Lines 70-72 and 73-75 of \<^verbatim>\<open>BaseResource.__new__\<close>.\<close>

definition collection_fields :: "model_cls \<Rightarrow> string list" where
  "collection_fields cls =
     filter (include_field_for_collection cls) (resource_fields cls) @ [''resource'']"

definition versioned_fields :: "model_cls \<Rightarrow> string list" where
  "versioned_fields cls =
     filter (\<lambda>n. n \<notin> set (exclude_for_version cls)) (resource_fields cls)"

text \<open>
  Lines 47-69: a class statement extends the inherited lists instead of replacing them
  (own entries first); a list the class body does not give is inherited as it is.
  \<^verbatim>\<open>identifiers\<close> is a plain class attribute: given, it replaces the inherited one.
\<close>

definition inherit_extend :: "string list option \<Rightarrow> string list \<Rightarrow> string list" where
  "inherit_extend own inherited = (case own of None \<Rightarrow> inherited | Some l \<Rightarrow> l @ inherited)"

definition base_resource_new ::
  "model_cls \<Rightarrow> string \<Rightarrow> (string \<times> cls_attr) list \<Rightarrow> string list option \<Rightarrow>
   string list option \<Rightarrow> string list option \<Rightarrow> string list option \<Rightarrow> model_cls" where
  "base_resource_new base name attrs rf ids efc efv =
     \<lparr> cls_name = name,
       cls_attrs = attrs @ cls_attrs base,
       resource_fields = inherit_extend rf (resource_fields base),
       identifiers = (case ids of None \<Rightarrow> identifiers base | Some l \<Rightarrow> l),
       exclude_for_collection = inherit_extend efc (exclude_for_collection base),
       exclude_for_version = inherit_extend efv (exclude_for_version base) \<rparr>"

text \<open>
  The classes of src/ban/core/resource.py and src/ban/core/models.py that the examples
  use. \<^verbatim>\<open>db.Model\<close> gives the primary key \<^verbatim>\<open>pk\<close>; \<^verbatim>\<open>Versioned\<close> (mixed into
  \<^verbatim>\<open>Model\<close>) gives the version and the created/modified columns.
\<close>

definition db_Model :: model_cls where
  "db_Model =
     \<lparr> cls_name = ''Model'', cls_attrs = [(''pk'', Column)], resource_fields = [],
       identifiers = [], exclude_for_collection = [], exclude_for_version = [] \<rparr>"

definition ResourceModel :: model_cls where
  "ResourceModel =
     base_resource_new db_Model ''ResourceModel'' [(''id'', Column)]
       (Some [''id'']) (Some []) (Some []) (Some [])"

definition Model :: model_cls where
  "Model =
     base_resource_new ResourceModel ''Model''
       [(''attributes'', Column), (''version'', Column), (''created_at'', Column),
        (''created_by'', Column), (''modified_at'', Column), (''modified_by'', Column)]
       (Some [''version'', ''created_at'', ''created_by'', ''modified_at'', ''modified_by'',
              ''attributes''])
       None
       (Some [''created_at'', ''created_by'', ''modified_at'', ''modified_by''])
       None"

definition NamedModel :: model_cls where
  "NamedModel =
     base_resource_new Model ''NamedModel'' [(''name'', Column), (''alias'', Column)]
       None None None None"

definition Municipality :: model_cls where
  "Municipality =
     base_resource_new NamedModel ''Municipality''
       [(''insee'', Column), (''siren'', Column), (''postcodes'', ReverseRelationDescriptor)]
       (Some [''name'', ''alias'', ''insee'', ''siren'', ''postcodes''])
       (Some [''siren'', ''insee''])
       None
       (Some [''postcodes''])"

section \<open>Serialised views of an instance\<close>

text \<open>
  Attribute access on an instance. \<^verbatim>\<open>resource\<close> is a property (lines 142-144): the
  lower-cased class name. Any other name is read from the instance's attributes, and a
  missing one raises \<^verbatim>\<open>AttributeError\<close>.
\<close>

definition getattr_inst :: "model_obj \<Rightarrow> string \<Rightarrow> error + pyval" where
  "getattr_inst self name =
     (if name = ''resource'' then Inr (PStr (lower (cls_name (inst_cls self))))
      else (case map_of (inst_attrs self) name of
              None \<Rightarrow> Inl (AttributeError name)
            | Some v \<Rightarrow> Inr v))"

text \<open>
  \<^verbatim>\<open>getattr(obj, name, default)\<close> with the default already evaluated: only a missing
  attribute falls back to it.
\<close>

definition getattr_default :: "model_obj \<Rightarrow> string \<Rightarrow> pyval \<Rightarrow> pyval" where
  "getattr_default self name dflt =
     (case getattr_inst self name of Inl _ \<Rightarrow> dflt | Inr v \<Rightarrow> v)"

text \<open>
  \<^verbatim>\<open>compact_field\<close> (lines 179-181). Python evaluates the default
  \<^verbatim>\<open>getattr(self, name)\<close> first, so a missing attribute raises even when the
  \<^verbatim>\<open>_compact\<close> variant exists. A related instance is replaced by its id.
\<close>

definition compact_field :: "model_obj \<Rightarrow> string \<Rightarrow> error + pyval" where
  "compact_field self name =
     (case getattr_inst self name of
        Inl e \<Rightarrow> Inl e
      | Inr dflt \<Rightarrow>
          (let value = getattr_default self (name @ ''_compact'') dflt
           in Inr (case value of
                     PModel rel \<Rightarrow> getattr_default rel ''id'' value
                   | _ \<Rightarrow> value)))"

text \<open>The loop of \<^verbatim>\<open>as_relation\<close> (lines 158-168), over the collection fields.\<close>

fun as_relation_loop :: "model_obj \<Rightarrow> string list \<Rightarrow> pydict \<Rightarrow> error + pydict" where
  "as_relation_loop self [] out = Inr out"
| "as_relation_loop self (name # names) out =
     (case compact_field self name of
        Inl e \<Rightarrow> Inl e
      | Inr value \<Rightarrow>
          as_relation_loop self names
            (if value \<noteq> PNone then AList.update name value out else out))"

definition as_relation :: "model_obj \<Rightarrow> error + pydict" where
  "as_relation self = as_relation_loop self (collection_fields (inst_cls self)) []"

text \<open>
  \<^verbatim>\<open>extended_field\<close> (lines 175-177): a related instance is replaced by its
  \<^verbatim>\<open>as_relation\<close> view; when that property raises \<^verbatim>\<open>AttributeError\<close>, the three-argument
  \<^verbatim>\<open>getattr\<close> returns the default, the instance itself.
\<close>

definition extended_field :: "model_obj \<Rightarrow> string \<Rightarrow> error + pyval" where
  "extended_field self name =
     (case getattr_inst self name of
        Inl e \<Rightarrow> Inl e
      | Inr dflt \<Rightarrow>
          (let value = getattr_default self (name @ ''_extended'') dflt
           in Inr (case value of
                     PModel rel \<Rightarrow>
                       (case as_relation rel of Inl _ \<Rightarrow> value | Inr d \<Rightarrow> PDict d)
                   | _ \<Rightarrow> value)))"

text \<open>The loop of \<^verbatim>\<open>as_resource\<close> (lines 146-156), over the resource fields.\<close>

fun as_resource_loop :: "model_obj \<Rightarrow> string list \<Rightarrow> pydict \<Rightarrow> error + pydict" where
  "as_resource_loop self [] out = Inr out"
| "as_resource_loop self (name # names) out =
     (case extended_field self name of
        Inl e \<Rightarrow> Inl e
      | Inr value \<Rightarrow>
          as_resource_loop self names
            (if value \<noteq> PNone then AList.update name value out else out))"

definition as_resource :: "model_obj \<Rightarrow> error + pydict" where
  "as_resource self = as_resource_loop self (resource_fields (inst_cls self)) []"

text \<open>
  \<^verbatim>\<open>as_version\<close> (lines 170-173): a dict comprehension over the versioned fields; it
  keeps \<^verbatim>\<open>None\<close> values.
\<close>

fun as_version_loop :: "model_obj \<Rightarrow> string list \<Rightarrow> pydict \<Rightarrow> error + pydict" where
  "as_version_loop self [] out = Inr out"
| "as_version_loop self (f # fs) out =
     (case compact_field self f of
        Inl e \<Rightarrow> Inl e
      | Inr value \<Rightarrow> as_version_loop self fs (AList.update f value out))"

definition as_version :: "model_obj \<Rightarrow> error + pydict" where
  "as_version self = as_version_loop self (versioned_fields (inst_cls self)) []"

text \<open>
  An example instance: a municipality as \<^verbatim>\<open>MunicipalityFactory\<close> builds it in
  src/ban/tests/test_models.py, with no SIREN and no alias.
\<close>

definition paris :: model_obj where
  "paris = Instance Municipality
     [(''id'', PStr ''ban-municipality-1''), (''version'', PInt 1), (''created_at'', PInt 10),
      (''created_by'', PStr ''s1''), (''modified_at'', PInt 10), (''modified_by'', PStr ''s1''),
      (''attributes'', PNone), (''name'', PStr ''Paris''), (''alias'', PNone),
      (''insee'', PStr ''75056''), (''siren'', PNone), (''postcodes'', PList [PStr ''75010''])]"

section \<open>Resolving an identifier: \<^verbatim>\<open>ResourceModel.coerce\<close>\<close>

text \<open>\<^verbatim>\<open>str.split(sep)\<close>: the pieces between the separators, never an empty list.\<close>

fun split_on :: "char \<Rightarrow> string \<Rightarrow> string list" where
  "split_on c [] = [] # []"
| "split_on c (x # xs) =
     (if x = c then [] # split_on c xs
      else (case split_on c xs of
              [] \<Rightarrow> [x] # []
            | w # ws \<Rightarrow> (x # w) # ws))"

text \<open>
  \<^verbatim>\<open>getattr(cls, identifier)\<close> at line 195. Only a column can be compared with a value
  in a query; a name that is not an attribute of the class raises \<^verbatim>\<open>AttributeError\<close>, and
  the model gives the same outcome to an attribute that is not a column.
\<close>

definition getattr_cls :: "model_cls \<Rightarrow> string \<Rightarrow> error + string" where
  "getattr_cls cls identifier =
     (case map_of (cls_attrs cls) identifier of
        Some Column \<Rightarrow> Inr identifier
      | _ \<Rightarrow> Inl (AttributeError identifier))"

text \<open>
  peewee's \<^verbatim>\<open>cls.get(field == value)\<close> over the rows of the class's table: the first row
  whose column holds the value, or \<^verbatim>\<open>cls.DoesNotExist\<close> (with the head of peewee's message,
  without the SQL text it appends). Values are compared as stored; the conversion a column
  applies to a query parameter is not modelled.
\<close>

definition peewee_get :: "model_obj list \<Rightarrow> string \<Rightarrow> pyval \<Rightarrow> error + model_obj" where
  "peewee_get table field value =
     (case find (\<lambda>r. map_of (inst_attrs r) field = Some value) table of
        None \<Rightarrow> Inl (DoesNotExist ''Instance matching query does not exist'')
      | Some r \<Rightarrow> Inr r)"

text \<open>
  Lines 185-193 of \<^verbatim>\<open>coerce\<close>: without an explicit identifier the default is \<^verbatim>\<open>id\<close>; a
  string is split on colons, the last piece is the value and, when there is more than one
  piece, the first is the identifier, which must be declared. The result is the identifier
  and the value the lookup will use.
\<close>

definition coerce_default :: "model_cls \<Rightarrow> pyval \<Rightarrow> error + (string \<times> pyval)" where
  "coerce_default cls ident =
     (case ident of
        PStr s \<Rightarrow>
          (let parts = split_on CHR '':'' s;
               extra = butlast parts;
               value = last parts;
               identifier = (if extra \<noteq> [] then hd extra else ''id'')
           in if identifier \<notin> set (identifiers cls @ [''id'', ''pk''])
              then Inl (DoesNotExist (''Invalid identifier '' @ identifier))
              else Inr (identifier, PStr value))
      | _ \<Rightarrow> Inr (''id'', ident))"

definition coerce_identifier ::
  "model_cls \<Rightarrow> pyval \<Rightarrow> string option \<Rightarrow> error + (string \<times> pyval)" where
  "coerce_identifier cls ident identifier =
     (case identifier of
        None \<Rightarrow> coerce_default cls ident
      | Some i \<Rightarrow> if i = [] then coerce_default cls ident else Inr (i, ident))"

text \<open>
  Lines 194-203: the lookup, and on \<^verbatim>\<open>DoesNotExist\<close> one call of
  \<^verbatim>\<open>IdentifierRedirect.follow\<close>; a truthy answer is looked up once, under the same
  identifier, and an exception of that second lookup propagates; otherwise the first
  exception is raised again. The resolver is a parameter.
\<close>

definition coerce_lookup ::
  "(model_cls \<Rightarrow> string \<Rightarrow> pyval \<Rightarrow> pyval) \<Rightarrow> model_cls \<Rightarrow> model_obj list \<Rightarrow>
   string \<Rightarrow> pyval \<Rightarrow> error + model_obj" where
  "coerce_lookup follow_fn cls table identifier ident =
     (case getattr_cls cls identifier of
        Inl e \<Rightarrow> Inl e
      | Inr field \<Rightarrow>
          (case peewee_get table field ident of
             Inr r \<Rightarrow> Inr r
           | Inl (DoesNotExist m) \<Rightarrow>
               (let new = follow_fn cls identifier ident
                in if truthy new then peewee_get table field new
                   else Inl (DoesNotExist m))
           | Inl e \<Rightarrow> Inl e))"

definition coerce ::
  "(model_cls \<Rightarrow> string \<Rightarrow> pyval \<Rightarrow> pyval) \<Rightarrow> model_cls \<Rightarrow> model_obj list \<Rightarrow>
   pyval \<Rightarrow> string option \<Rightarrow> error + model_obj" where
  "coerce follow_fn cls table ident identifier =
     (case coerce_identifier cls ident identifier of
        Inl e \<Rightarrow> Inl e
      | Inr (i, v) \<Rightarrow> coerce_lookup follow_fn cls table i v)"

text \<open>
  Modelled from the spec: \<^verbatim>\<open>IdentifierRedirect.follow\<close> (ban/core/versioning.py is not
  among the sources). A redirect record maps (entity kind, identifier kind, old value) to
  the value to retry with; \<^verbatim>\<open>follow\<close> looks the record up and returns that value, or
  \<^verbatim>\<open>None\<close> when there is no record.
\<close>

record redirect =
  model_name :: string
  redirect_identifier :: string
  old_value :: pyval
  new_value :: pyval

definition follow :: "redirect list \<Rightarrow> model_cls \<Rightarrow> string \<Rightarrow> pyval \<Rightarrow> pyval" where
  "follow redirects cls identifier old =
     (case find (\<lambda>r. model_name r = cls_name cls \<and> redirect_identifier r = identifier \<and>
                      old_value r = old) redirects of
        None \<Rightarrow> PNone
      | Some r \<Rightarrow> new_value r)"

text \<open>Whether an outcome is the not-found exception, as \<^verbatim>\<open>except cls.DoesNotExist\<close> sees it.\<close>

fun is_DoesNotExist :: "error + 'a \<Rightarrow> bool" where
  "is_DoesNotExist (Inl (DoesNotExist m)) = True"
| "is_DoesNotExist _ = False"

text \<open>
  Example redirects for municipalities: INSEE code 77316 was replaced by 77317, and 77317
  by 75056, the code \<^term>\<open>paris\<close> holds.
\<close>

definition insee_chain :: "redirect list" where
  "insee_chain =
     [\<lparr> model_name = ''Municipality'', redirect_identifier = ''insee'',
         old_value = PStr ''77316'', new_value = PStr ''77317'' \<rparr>,
      \<lparr> model_name = ''Municipality'', redirect_identifier = ''insee'',
         old_value = PStr ''77317'', new_value = PStr ''75056'' \<rparr>]"

section \<open>Versioned entities\<close>

text \<open>
  The versioning code (ban/core/versioning.py: \<^verbatim>\<open>Versioned\<close>, \<^verbatim>\<open>Version\<close>, \<^verbatim>\<open>Diff\<close>) is not
  among the sources; only its callers and tests are. This section models it from the
  specification, on top of \<^verbatim>\<open>as_version\<close> and \<^verbatim>\<open>make_id\<close>, which are in the sources.
\<close>

text \<open>\<^verbatim>\<open>make_id\<close> (resource.py, lines 93-95); the random hexadecimal part is a parameter.\<close>

definition make_id :: "model_cls \<Rightarrow> string \<Rightarrow> string" where
  "make_id cls hex = ''ban-'' @ lower (cls_name cls) @ ''-'' @ hex"

text \<open>
  Modelled from the spec: the persisted entity (section 3, Entity), without the transient
  locked version: kind, id, version, field values and the created/modified metadata.
\<close>

record row =
  row_cls :: model_cls
  row_id :: string
  version :: int
  field_values :: pydict
  created_by :: string
  created_at :: int
  modified_by :: string
  modified_at :: int

text \<open>
  Modelled from the spec: a loaded entity is the row as fetched together with
  \<^verbatim>\<open>locked_version\<close>, which exists on the loaded instance only.
\<close>

record entity =
  state :: row
  locked_version :: int

text \<open>Modelled from the spec: a version snapshot (section 3, Version).\<close>

record snapshot =
  entity_id :: string
  sequence :: int
  payload :: pydict
  author :: string
  timestamp :: int

text \<open>
  Modelled from the spec: the storage engine holds the entity rows, by id, and one
  append-only log of snapshots per entity (section 6).
\<close>

record store =
  rows :: "(string \<times> row) list"
  versions :: "string \<Rightarrow> snapshot list"

definition empty_store :: store where
  "empty_store = \<lparr> rows = [], versions = (\<lambda>i. []) \<rparr>"

text \<open>
  The attributes of an instance of the row's class, as \<^verbatim>\<open>as_version\<close> reads them: the
  metadata columns, then the field values.
\<close>

definition row_obj :: "row \<Rightarrow> model_obj" where
  "row_obj r =
     Instance (row_cls r)
       ([(''id'', PStr (row_id r)), (''version'', PInt (version r)),
         (''created_at'', PInt (created_at r)), (''created_by'', PStr (created_by r)),
         (''modified_at'', PInt (modified_at r)), (''modified_by'', PStr (modified_by r))]
        @ field_values r)"

text \<open>
  Modelled from the spec: \<^verbatim>\<open>acquire\<close> (section 4.1) records the version observed at load
  time; \<^verbatim>\<open>get\<close> and \<^verbatim>\<open>select\<close> load through it.
\<close>

definition acquire :: "row \<Rightarrow> entity" where
  "acquire r = \<lparr> state = r, locked_version = version r \<rparr>"

definition get_entity :: "store \<Rightarrow> string \<Rightarrow> error + entity" where
  "get_entity st i =
     (case map_of (rows st) i of
        None \<Rightarrow> Inl (DoesNotExist ''Instance matching query does not exist'')
      | Some r \<Rightarrow> Inr (acquire r))"

definition select_entities :: "store \<Rightarrow> entity list" where
  "select_entities st = map (\<lambda>(i, r). acquire r) (rows st)"

text \<open>
  Modelled from the spec: \<^verbatim>\<open>create\<close> (section 6) assigns the id, sets version 1 and writes
  snapshot 1, whose payload is \<^verbatim>\<open>as_version\<close> of the new entity. The id column is unique.
\<close>

definition create ::
  "store \<Rightarrow> model_cls \<Rightarrow> string \<Rightarrow> pydict \<Rightarrow> string \<Rightarrow> int \<Rightarrow> store \<times> (error + entity)" where
  "create st cls hex flds who now =
     (let i = make_id cls hex;
          r = \<lparr> row_cls = cls, row_id = i, version = 1, field_values = flds,
                created_by = who, created_at = now, modified_by = who, modified_at = now \<rparr>
      in if map_of (rows st) i \<noteq> None then (st, Inl IntegrityError)
         else (case as_version (row_obj r) of
                 Inl err \<Rightarrow> (st, Inl err)
               | Inr p \<Rightarrow>
                   (st\<lparr> rows := rows st @ [(i, r)],
                        versions := (versions st)
                          (i := versions st i @
                             [\<lparr> entity_id = i, sequence = 1, payload = p,
                                author = who, timestamp = now \<rparr>]) \<rparr>,
                    Inr (acquire r))))"

text \<open>Assigning the mutated fields, in order, over the loaded field values.\<close>

definition set_fields :: "pydict \<Rightarrow> pydict \<Rightarrow> pydict" where
  "set_fields muts flds = fold (\<lambda>(k, v). AList.update k v) muts flds"

text \<open>
  Modelled from the spec: \<^verbatim>\<open>save\<close> is the optimistic-lock commit (section 4.1) followed
  by the version-store append (section 4.2), as one atomic step. The persisted version
  must equal the locked version, otherwise \<^verbatim>\<open>Conflict\<close> and an unchanged store. On success
  the row gets version \<^verbatim>\<open>locked_version + 1\<close>, the new field values and the modification
  metadata; a snapshot with that sequence number is appended; the returned entity has its
  lock refreshed. An exception of \<^verbatim>\<open>as_version\<close> aborts the whole step.
\<close>

definition save ::
  "store \<Rightarrow> entity \<Rightarrow> pydict \<Rightarrow> string \<Rightarrow> int \<Rightarrow> store \<times> (error + entity)" where
  "save st e muts who now =
     (let i = row_id (state e)
      in case map_of (rows st) i of
           None \<Rightarrow> (st, Inl Conflict)
         | Some r \<Rightarrow>
             if version r \<noteq> locked_version e then (st, Inl Conflict)
             else
               (let r' = r\<lparr> version := locked_version e + 1,
                            field_values := set_fields muts (field_values (state e)),
                            modified_by := who, modified_at := now \<rparr>
                in case as_version (row_obj r') of
                     Inl err \<Rightarrow> (st, Inl err)
                   | Inr p \<Rightarrow>
                       (st\<lparr> rows := AList.update i r' (rows st),
                            versions := (versions st)
                              (i := versions st i @
                                 [\<lparr> entity_id = i, sequence = version r', payload = p,
                                    author = who, timestamp = now \<rparr>]) \<rparr>,
                        Inr \<lparr> state = r', locked_version = version r' \<rparr>)))"

text \<open>Modelled from the spec: \<^verbatim>\<open>history\<close> (section 4.2), the entity's snapshots in order.\<close>

definition history :: "store \<Rightarrow> string \<Rightarrow> snapshot list" where
  "history st i = versions st i"

text \<open>
  Modelled from the spec: the diff engine (section 4.3). The result maps every tracked
  field whose value differs to the pair of its old and new value; a value absent from a
  payload is \<open>None\<close>, distinct from every present value.
\<close>

type_synonym diff = "(string \<times> (pyval option \<times> pyval option)) list"

definition compute :: "pydict \<Rightarrow> pydict \<Rightarrow> string list \<Rightarrow> diff" where
  "compute old_payload new_payload tracked =
     map (\<lambda>f. (f, (map_of old_payload f, map_of new_payload f)))
       (filter (\<lambda>f. map_of old_payload f \<noteq> map_of new_payload f) (remdups tracked))"

text \<open>
  Modelled from the spec: the version and the created/modified author and timestamp are
  metadata of an entity, kept apart from its fields (section 3), and metadata is never a
  diffable field (section 9). The tests agree (src/ban/tests/test_models.py, lines 40-43
  and 60-63): after a save that changes the name, and with it the version and the
  modification metadata, the diff has the name as its only entry. The tracked fields of a
  diff are the versioned fields without the metadata.
\<close>

definition metadata_fields :: "string list" where
  "metadata_fields =
     [''version'', ''created_at'', ''created_by'', ''modified_at'', ''modified_by'']"

definition diffable_fields :: "model_cls \<Rightarrow> string list" where
  "diffable_fields cls =
     filter (\<lambda>f. f \<notin> set metadata_fields) (versioned_fields cls)"

definition diff_between :: "model_cls \<Rightarrow> snapshot \<Rightarrow> snapshot \<Rightarrow> diff" where
  "diff_between cls old_snap new_snap =
     compute (payload old_snap) (payload new_snap) (diffable_fields cls)"

text \<open>
  Modelled from the spec: \<^verbatim>\<open>diff_of\<close> (section 4.2) diffs a snapshot against its immediate
  predecessor, and the first snapshot against an empty payload.
\<close>

definition predecessor :: "store \<Rightarrow> snapshot \<Rightarrow> snapshot option" where
  "predecessor st snap =
     find (\<lambda>s. sequence s + 1 = sequence snap) (versions st (entity_id snap))"

definition diff_of :: "store \<Rightarrow> snapshot \<Rightarrow> error + diff" where
  "diff_of st snap =
     (case map_of (rows st) (entity_id snap) of
        None \<Rightarrow> Inl (DoesNotExist ''Instance matching query does not exist'')
      | Some r \<Rightarrow>
          Inr (compute (case predecessor st snap of None \<Rightarrow> [] | Some s \<Rightarrow> payload s)
                 (payload snap) (diffable_fields (row_cls r))))"

text \<open>
  A sequence of save attempts against one store, by any loaded entities (fresh or stale,
  of any id), with the outcome of each.
\<close>

type_synonym attempt = "entity \<times> pydict \<times> string \<times> int"

fun run_saves :: "store \<Rightarrow> attempt list \<Rightarrow> store \<times> (error + entity) list" where
  "run_saves st [] = (st, [])"
| "run_saves st ((e, muts, who, now) # rest) =
     (case save st e muts who now of
        (st', res) \<Rightarrow> (case run_saves st' rest of (st'', ress) \<Rightarrow> (st'', res # ress)))"

text \<open>The number of successful saves of entity \<open>i\<close> among the outcomes.\<close>

fun saved :: "string \<Rightarrow> error + entity \<Rightarrow> bool" where
  "saved i (Inr e) = (row_id (state e) = i)"
| "saved i (Inl err) = False"

definition successes :: "string \<Rightarrow> (error + entity) list \<Rightarrow> nat" where
  "successes i ress = length (filter (saved i) ress)"

text \<open>
  The stores the operations produce: every entity with a row has a log whose sequence
  numbers are 1 up to the row's version, each snapshot belongs to the entity and its
  payload has the versioned fields of the entity's class as keys; an id without a row has
  no log.
\<close>

definition store_ok :: "store \<Rightarrow> bool" where
  "store_ok st \<longleftrightarrow>
     (\<forall>i. case map_of (rows st) i of
            None \<Rightarrow> versions st i = []
          | Some r \<Rightarrow>
              row_id r = i \<and> 1 \<le> version r \<and>
              map sequence (versions st i) = [1..version r] \<and>
              (\<forall>s \<in> set (versions st i).
                 entity_id s = i \<and>
                 fst ` set (payload s) = set (versioned_fields (row_cls r))))"

text \<open>
  The example of the tests (\<^verbatim>\<open>test_municipality_is_versioned\<close>): a municipality created
  as Moret-sur-Loing and renamed to Orvanne.
\<close>

definition moret_fields :: pydict where
  "moret_fields =
     [(''name'', PStr ''Moret-sur-Loing''), (''alias'', PNone), (''insee'', PStr ''77316''),
      (''siren'', PNone), (''attributes'', PNone)]"

definition store1 :: store where
  "store1 = fst (create empty_store Municipality ''1f'' moret_fields ''s1'' 10)"

definition moret :: entity where
  "moret = \<lparr> state = \<lparr> row_cls = Municipality, row_id = ''ban-municipality-1f'', version = 1,
       field_values = moret_fields, created_by = ''s1'', created_at = 10, modified_by = ''s1'',
       modified_at = 10 \<rparr>, locked_version = 1 \<rparr>"

definition store2 :: store where
  "store2 = fst (save store1 moret [(''name'', PStr ''Orvanne'')] ''s2'' 20)"

text \<open>The entity the successful save returns.\<close>

definition orvanne :: entity where
  "orvanne = \<lparr> state = \<lparr> row_cls = Municipality, row_id = ''ban-municipality-1f'', version = 2,
       field_values = [(''name'', PStr ''Orvanne''), (''alias'', PNone),
         (''insee'', PStr ''77316''), (''siren'', PNone), (''attributes'', PNone)],
       created_by = ''s1'', created_at = 10, modified_by = ''s2'',
       modified_at = 20 \<rparr>, locked_version = 2 \<rparr>"

section \<open>Properties of the serialised views\<close>

lemmas cls_defs = Municipality_def NamedModel_def Model_def ResourceModel_def db_Model_def
  base_resource_new_def inherit_extend_def

lemma snd_set_update: "snd ` set (AList.update k v al) \<subseteq> insert v (snd ` set al)"
  by (induction al) auto

lemma as_resource_loop_values:
  "as_resource_loop self names out = Inr out' \<Longrightarrow> PNone \<notin> snd ` set out \<Longrightarrow>
   PNone \<notin> snd ` set out'"
proof (induction names arbitrary: out)
  case Nil
  then show ?case by simp
next
  case (Cons n ns)
  from Cons.prems obtain v where v: "extended_field self n = Inr v"
    by (auto split: sum.splits)
  let ?out = "if v \<noteq> PNone then AList.update n v out else out"
  have "PNone \<notin> snd ` set ?out"
    using Cons.prems(2) snd_set_update [of n v out] by auto
  moreover have "as_resource_loop self ns ?out = Inr out'"
    using Cons.prems(1) v by simp
  ultimately show ?case by (rule Cons.IH [rotated])
qed

lemma as_resource_loop_keys:
  "as_resource_loop self names out = Inr out' \<Longrightarrow>
   fst ` set out' \<subseteq> fst ` set out \<union> {n. extended_field self n \<noteq> Inr PNone}"
proof (induction names arbitrary: out)
  case Nil
  then show ?case by auto
next
  case (Cons n ns)
  from Cons.prems obtain v where v: "extended_field self n = Inr v"
    by (auto split: sum.splits)
  let ?out = "if v \<noteq> PNone then AList.update n v out else out"
  have "as_resource_loop self ns ?out = Inr out'"
    using Cons.prems v by simp
  from Cons.IH [OF this]
  have "fst ` set out' \<subseteq> fst ` set ?out \<union> {n. extended_field self n \<noteq> Inr PNone}" .
  moreover have "fst ` set ?out \<subseteq> fst ` set out \<union> {n. extended_field self n \<noteq> Inr PNone}"
    using v by (auto simp: dom_update)
  ultimately show ?case by blast
qed

lemma as_relation_loop_values:
  "as_relation_loop self names out = Inr out' \<Longrightarrow> PNone \<notin> snd ` set out \<Longrightarrow>
   PNone \<notin> snd ` set out'"
proof (induction names arbitrary: out)
  case Nil
  then show ?case by simp
next
  case (Cons n ns)
  from Cons.prems obtain v where v: "compact_field self n = Inr v"
    by (auto split: sum.splits)
  let ?out = "if v \<noteq> PNone then AList.update n v out else out"
  have "PNone \<notin> snd ` set ?out"
    using Cons.prems(2) snd_set_update [of n v out] by auto
  moreover have "as_relation_loop self ns ?out = Inr out'"
    using Cons.prems(1) v by simp
  ultimately show ?case by (rule Cons.IH [rotated])
qed

lemma as_relation_loop_keys:
  "as_relation_loop self names out = Inr out' \<Longrightarrow>
   fst ` set out' \<subseteq> fst ` set out \<union> {n. compact_field self n \<noteq> Inr PNone}"
proof (induction names arbitrary: out)
  case Nil
  then show ?case by auto
next
  case (Cons n ns)
  from Cons.prems obtain v where v: "compact_field self n = Inr v"
    by (auto split: sum.splits)
  let ?out = "if v \<noteq> PNone then AList.update n v out else out"
  have "as_relation_loop self ns ?out = Inr out'"
    using Cons.prems v by simp
  from Cons.IH [OF this]
  have "fst ` set out' \<subseteq> fst ` set ?out \<union> {n. compact_field self n \<noteq> Inr PNone}" .
  moreover have "fst ` set ?out \<subseteq> fst ` set out \<union> {n. compact_field self n \<noteq> Inr PNone}"
    using v by (auto simp: dom_update)
  ultimately show ?case by blast
qed

lemma as_resource_paris:
  "as_resource paris = Inr
     [(''name'', PStr ''Paris''), (''insee'', PStr ''75056''),
      (''postcodes'', PList [PStr ''75010'']), (''version'', PInt 1),
      (''created_at'', PInt 10), (''created_by'', PStr ''s1''),
      (''modified_at'', PInt 10), (''modified_by'', PStr ''s1''),
      (''id'', PStr ''ban-municipality-1'')]"
  by (simp add: as_resource_def paris_def cls_defs extended_field_def getattr_inst_def
      getattr_default_def)

lemma as_relation_paris:
  "as_relation paris = Inr
     [(''name'', PStr ''Paris''), (''insee'', PStr ''75056''), (''version'', PInt 1),
      (''id'', PStr ''ban-municipality-1''), (''resource'', PStr ''municipality'')]"
  by (simp add: as_relation_def paris_def cls_defs collection_fields_def
      include_field_for_collection_def compact_field_def getattr_inst_def getattr_default_def
      lower_def lower_char_def)

text \<open>
  Claim C10. Whenever \<^verbatim>\<open>as_resource\<close> or \<^verbatim>\<open>as_relation\<close> returns a mapping, no key of it
  maps to \<^verbatim>\<open>None\<close>, and every field whose value (as \<^verbatim>\<open>extended_field\<close>, respectively
  \<^verbatim>\<open>compact_field\<close>, reads it) is \<^verbatim>\<open>None\<close> is absent from the mapping.
\<close>

theorem views_omit_none:
  "(as_resource self = Inr out \<longrightarrow>
      PNone \<notin> snd ` set out \<and>
      (\<forall>name. extended_field self name = Inr PNone \<longrightarrow> name \<notin> fst ` set out)) \<and>
   (as_relation self = Inr rel \<longrightarrow>
      PNone \<notin> snd ` set rel \<and>
      (\<forall>name. compact_field self name = Inr PNone \<longrightarrow> name \<notin> fst ` set rel))"
proof (intro conjI impI)
  assume a: "as_resource self = Inr out"
  then show "PNone \<notin> snd ` set out"
    unfolding as_resource_def by (rule as_resource_loop_values) simp
  from as_resource_loop_keys [OF a [unfolded as_resource_def]]
  show "\<forall>name. extended_field self name = Inr PNone \<longrightarrow> name \<notin> fst ` set out"
    by auto
next
  assume a: "as_relation self = Inr rel"
  then show "PNone \<notin> snd ` set rel"
    unfolding as_relation_def by (rule as_relation_loop_values) simp
  from as_relation_loop_keys [OF a [unfolded as_relation_def]]
  show "\<forall>name. compact_field self name = Inr PNone \<longrightarrow> name \<notin> fst ` set rel"
    by auto
qed

theorem views_omit_none_witness:
  "(\<exists>out. as_resource paris = Inr out \<and> PNone \<notin> snd ` set out \<and> ''siren'' \<notin> fst ` set out) \<and>
   (\<exists>rel. as_relation paris = Inr rel \<and> PNone \<notin> snd ` set rel \<and> ''siren'' \<notin> fst ` set rel) \<and>
   extended_field paris ''siren'' = Inr PNone \<and> compact_field paris ''siren'' = Inr PNone"
proof -
  have e: "extended_field paris ''siren'' = Inr PNone"
    by (simp add: paris_def extended_field_def getattr_inst_def getattr_default_def)
  have c: "compact_field paris ''siren'' = Inr PNone"
    by (simp add: paris_def compact_field_def getattr_inst_def getattr_default_def)
  from views_omit_none [of paris _ _] as_resource_paris as_relation_paris e c
  show ?thesis by blast
qed

section \<open>Properties of identifier resolution\<close>

lemma split_on_not_Nil: "split_on c xs \<noteq> []"
  by (induction xs) (auto split: list.splits)

lemma split_on_no_sep: "c \<notin> set xs \<Longrightarrow> split_on c xs = [xs]"
  by (induction xs) auto

lemma split_on_prefix: "c \<notin> set k \<Longrightarrow> split_on c (k @ c # v) = k # split_on c v"
  by (induction k) auto

lemma coerce_default_bare:
  "CHR '':'' \<notin> set tok \<Longrightarrow> coerce_default cls (PStr tok) = Inr (''id'', PStr tok)"
  by (simp add: coerce_default_def split_on_no_sep)

lemma coerce_default_namespaced:
  assumes "CHR '':'' \<notin> set kind"
  shows "coerce_default cls (PStr (kind @ CHR '':'' # rest)) =
     (if kind \<notin> set (identifiers cls @ [''id'', ''pk''])
      then Inl (DoesNotExist (''Invalid identifier '' @ kind))
      else Inr (kind, PStr (last (split_on CHR '':'' rest))))"
  using assms split_on_not_Nil [of "CHR '':''" rest]
  by (simp add: coerce_default_def split_on_prefix Let_def)

lemma find_unique:
  assumes "e \<in> set xs" "P e" "\<forall>r\<in>set xs. P r \<longrightarrow> r = e"
  shows "find P xs = Some e"
proof (cases "find P xs")
  case None
  with assms(1,2) show ?thesis by (simp add: find_None_iff)
next
  case (Some r)
  then have "r \<in> set xs" "P r"
    by (auto simp: find_Some_iff)
  with assms(3) have "r = e" by blast
  with Some show ?thesis by simp
qed

lemma peewee_get_unique:
  assumes "e \<in> set table" "map_of (inst_attrs e) field = Some value"
    "\<forall>r\<in>set table. map_of (inst_attrs r) field = Some value \<longrightarrow> r = e"
  shows "peewee_get table field value = Inr e"
proof -
  have "find (\<lambda>r. map_of (inst_attrs r) field = Some value) table = Some e"
    using assms by (intro find_unique) 
  then show ?thesis by (simp add: peewee_get_def)
qed

lemma peewee_get_miss:
  assumes "\<forall>r\<in>set table. map_of (inst_attrs r) field \<noteq> Some value"
  shows "peewee_get table field value = Inl (DoesNotExist ''Instance matching query does not exist'')"
proof -
  have "find (\<lambda>r. map_of (inst_attrs r) field = Some value) table = None"
    using assms by (simp add: find_None_iff)
  then show ?thesis by (simp add: peewee_get_def)
qed

lemma peewee_get_cases:
  "peewee_get table field value = Inl (DoesNotExist ''Instance matching query does not exist'') \<or>
   (\<exists>r. peewee_get table field value = Inr r)"
  by (auto simp: peewee_get_def split: option.splits)

text \<open>
  Claim C4, as amended. A token \<^verbatim>\<open>kind:rest\<close> whose kind is not among the declared
  identifiers (nor \<^verbatim>\<open>id\<close>, \<^verbatim>\<open>pk\<close>) fails before any lookup, whatever the table and the
  redirects hold, with the class's \<^verbatim>\<open>DoesNotExist\<close> exception, the one a lookup miss
  raises, carrying the message \<^verbatim>\<open>Invalid identifier kind\<close>.
\<close>

theorem invalid_identifier_raises_DoesNotExist:
  assumes "kind \<notin> set (identifiers cls @ [''id'', ''pk''])" and "CHR '':'' \<notin> set kind"
    and "identifier = None \<or> identifier = Some []"
  shows "coerce follow_fn cls table (PStr (kind @ CHR '':'' # rest)) identifier =
           Inl (DoesNotExist (''Invalid identifier '' @ kind))"
  using assms by (auto simp: coerce_def coerce_identifier_def coerce_default_namespaced)


lemma coerce_lookup_miss:
  assumes "getattr_cls cls k = Inr k" and "peewee_get table k v = Inl (DoesNotExist m)"
  shows "coerce_lookup follow_fn cls table k v =
           (if truthy (follow_fn cls k v) then peewee_get table k (follow_fn cls k v)
            else Inl (DoesNotExist m))"
  using assms by (simp add: coerce_lookup_def Let_def)

lemma coerce_lookup_hit:
  assumes "getattr_cls cls k = Inr k" and "peewee_get table k v = Inr r"
  shows "coerce_lookup follow_fn cls table k v = Inr r"
  using assms by (simp add: coerce_lookup_def)

lemma coerce_lookup_cong:
  assumes "follow_fn cls k v = follow_fn' cls k v"
  shows "coerce_lookup follow_fn cls table k v = coerce_lookup follow_fn' cls table k v"
  unfolding coerce_lookup_def assms by (rule refl)

text \<open>
  Claim C5, as amended. Once the identifier \<open>k\<close> and the value \<open>v\<close> are parsed, the result
  depends on the resolver only through its answer at \<open>(cls, k, v)\<close>: it is consulted at most
  once. After a miss, a truthy answer is looked up once and the outcome of that lookup,
  a row or \<^verbatim>\<open>DoesNotExist\<close>, is the result; a falsy answer raises the first
  \<^verbatim>\<open>DoesNotExist\<close> again.
\<close>

theorem coerce_single_hop:
  assumes "coerce_identifier cls ident identifier = Inr (k, v)"
  shows "(follow_fn cls k v = follow_fn' cls k v \<longrightarrow>
            coerce follow_fn cls table ident identifier =
            coerce follow_fn' cls table ident identifier) \<and>
         (getattr_cls cls k = Inr k \<and> peewee_get table k v = Inl (DoesNotExist m) \<and>
          truthy (follow_fn cls k v) \<longrightarrow>
            coerce follow_fn cls table ident identifier =
            peewee_get table k (follow_fn cls k v)) \<and>
         (getattr_cls cls k = Inr k \<and> peewee_get table k v = Inl (DoesNotExist m) \<and>
          \<not> truthy (follow_fn cls k v) \<longrightarrow>
            coerce follow_fn cls table ident identifier = Inl (DoesNotExist m))"
proof (intro conjI impI)
  assume "follow_fn cls k v = follow_fn' cls k v"
  then show "coerce follow_fn cls table ident identifier =
      coerce follow_fn' cls table ident identifier"
    using assms coerce_lookup_cong [of follow_fn cls k v follow_fn' table]
    by (simp add: coerce_def)
next
  assume "getattr_cls cls k = Inr k \<and> peewee_get table k v = Inl (DoesNotExist m) \<and>
          truthy (follow_fn cls k v)"
  then show "coerce follow_fn cls table ident identifier =
      peewee_get table k (follow_fn cls k v)"
    using assms coerce_lookup_miss [of cls k table v m follow_fn]
    by (simp add: coerce_def)
next
  assume "getattr_cls cls k = Inr k \<and> peewee_get table k v = Inl (DoesNotExist m) \<and>
          \<not> truthy (follow_fn cls k v)"
  then show "coerce follow_fn cls table ident identifier = Inl (DoesNotExist m)"
    using assms coerce_lookup_miss [of cls k table v m follow_fn]
    by (simp add: coerce_def)
qed


lemma getattr_cls_Column:
  "map_of (cls_attrs cls) k = Some Column \<Longrightarrow> getattr_cls cls k = Inr k"
  by (simp add: getattr_cls_def)

lemma coerce_explicit:
  "kind \<noteq> [] \<Longrightarrow> coerce follow_fn cls table v (Some kind) = coerce_lookup follow_fn cls table kind v"
  by (simp add: coerce_def coerce_identifier_def)

lemma coerce_bare:
  "CHR '':'' \<notin> set tok \<Longrightarrow>
   coerce follow_fn cls table (PStr tok) None = coerce_lookup follow_fn cls table ''id'' (PStr tok)"
  by (simp add: coerce_def coerce_identifier_def coerce_default_bare)

lemma coerce_namespaced:
  "CHR '':'' \<notin> set kind \<Longrightarrow> CHR '':'' \<notin> set value \<Longrightarrow>
   kind \<in> set (identifiers cls @ [''id'', ''pk'']) \<Longrightarrow>
   coerce follow_fn cls table (PStr (kind @ CHR '':'' # value)) None =
   coerce_lookup follow_fn cls table kind (PStr value)"
  by (simp add: coerce_def coerce_identifier_def coerce_default_namespaced split_on_no_sep)

text \<open>
  Claim C7. For a row \<open>e\<close> of the table that alone holds \<open>value\<close> in column \<open>kind\<close>: when
  \<open>kind\<close> is \<^verbatim>\<open>id\<close>, the bare token \<open>value\<close> resolves to \<open>e\<close>; when \<open>kind\<close> is a declared
  identifier, the token \<^verbatim>\<open>kind:value\<close> resolves to \<open>e\<close>. Kind and value are the two
  colon-free parts of the token.
\<close>

theorem coerce_token_lookup:
  assumes "e \<in> set table" and "map_of (inst_attrs e) kind = Some (PStr value)"
    and "\<forall>r\<in>set table. map_of (inst_attrs r) kind = Some (PStr value) \<longrightarrow> r = e"
    and "map_of (cls_attrs cls) kind = Some Column"
    and "CHR '':'' \<notin> set value"
  shows "(kind = ''id'' \<longrightarrow> coerce follow_fn cls table (PStr value) None = Inr e) \<and>
         (kind \<in> set (identifiers cls @ [''id'', ''pk'']) \<and> CHR '':'' \<notin> set kind \<longrightarrow>
            coerce follow_fn cls table (PStr (kind @ CHR '':'' # value)) None = Inr e)"
proof -
  have hit: "coerce_lookup follow_fn cls table kind (PStr value) = Inr e"
    using assms(1-4) by (intro coerce_lookup_hit getattr_cls_Column peewee_get_unique)
  show ?thesis
  proof (intro conjI impI)
    assume "kind = ''id''"
    with hit assms(5) show "coerce follow_fn cls table (PStr value) None = Inr e"
      by (simp add: coerce_bare)
  next
    assume "kind \<in> set (identifiers cls @ [''id'', ''pk'']) \<and> CHR '':'' \<notin> set kind"
    with hit assms(5)
    show "coerce follow_fn cls table (PStr (kind @ CHR '':'' # value)) None = Inr e"
      by (simp add: coerce_namespaced)
  qed
qed

text \<open>
  Claim C6. When no row holds \<open>old\<close> in column \<open>kind\<close>, the resolver answers \<open>new\<close> (a
  non-empty string) for \<open>(cls, kind, old)\<close>, and \<open>e\<close> is the row that holds \<open>new\<close>, resolving
  \<open>old\<close> under \<open>kind\<close> returns \<open>e\<close>: with the identifier given explicitly, as a bare token
  when \<open>kind\<close> is \<^verbatim>\<open>id\<close>, and as the token \<^verbatim>\<open>kind:old\<close>.
\<close>

theorem coerce_follows_redirect:
  assumes "map_of (cls_attrs cls) kind = Some Column"
    and "\<forall>r\<in>set table. map_of (inst_attrs r) kind \<noteq> Some (PStr old)"
    and "follow_fn cls kind (PStr old) = PStr new" and "new \<noteq> []"
    and "e \<in> set table" and "map_of (inst_attrs e) kind = Some (PStr new)"
    and "\<forall>r\<in>set table. map_of (inst_attrs r) kind = Some (PStr new) \<longrightarrow> r = e"
  shows "(kind \<noteq> [] \<longrightarrow> coerce follow_fn cls table (PStr old) (Some kind) = Inr e) \<and>
         (kind = ''id'' \<and> CHR '':'' \<notin> set old \<longrightarrow>
            coerce follow_fn cls table (PStr old) None = Inr e) \<and>
         (kind \<in> set (identifiers cls @ [''id'', ''pk'']) \<and> CHR '':'' \<notin> set kind \<and>
          CHR '':'' \<notin> set old \<longrightarrow>
            coerce follow_fn cls table (PStr (kind @ CHR '':'' # old)) None = Inr e)"
proof -
  have col: "getattr_cls cls kind = Inr kind"
    using assms(1) by (rule getattr_cls_Column)
  have miss: "peewee_get table kind (PStr old) =
      Inl (DoesNotExist ''Instance matching query does not exist'')"
    using assms(2) by (rule peewee_get_miss)
  have retry: "peewee_get table kind (PStr new) = Inr e"
    using assms(5-7) by (rule peewee_get_unique)
  have hop: "coerce_lookup follow_fn cls table kind (PStr old) = Inr e"
    using coerce_lookup_miss [OF col miss, of follow_fn] assms(3,4) retry by simp
  show ?thesis
  proof (intro conjI impI)
    assume "kind \<noteq> []"
    with hop show "coerce follow_fn cls table (PStr old) (Some kind) = Inr e"
      by (simp add: coerce_explicit)
  next
    assume "kind = ''id'' \<and> CHR '':'' \<notin> set old"
    with hop show "coerce follow_fn cls table (PStr old) None = Inr e"
      by (simp add: coerce_bare)
  next
    assume "kind \<in> set (identifiers cls @ [''id'', ''pk'']) \<and> CHR '':'' \<notin> set kind \<and>
          CHR '':'' \<notin> set old"
    with hop show "coerce follow_fn cls table (PStr (kind @ CHR '':'' # old)) None = Inr e"
      by (simp add: coerce_namespaced)
  qed
qed


lemmas coerce_defs = coerce_def coerce_identifier_def coerce_default_def coerce_lookup_def
  getattr_cls_def peewee_get_def follow_def insee_chain_def paris_def

text \<open>
  Claim C4 as stated fails: the undeclared kind \<^verbatim>\<open>foo\<close> and the unknown INSEE code 99999
  both end in \<^verbatim>\<open>DoesNotExist\<close>, the not-found exception; there is no separate
  invalid-identifier exception.
\<close>

theorem invalid_identifier_counterexample:
  "coerce (follow insee_chain) Municipality [paris] (PStr ''foo:75056'') None =
     Inl (DoesNotExist ''Invalid identifier foo'') \<and>
   is_DoesNotExist (coerce (follow insee_chain) Municipality [paris] (PStr ''foo:75056'') None) \<and>
   is_DoesNotExist (coerce (follow insee_chain) Municipality [paris] (PStr ''insee:99999'') None)"
  by (simp add: coerce_defs cls_defs)

text \<open>
  Claim C5 as stated fails: with the chain 77316 to 77317 to 75056, resolving 77316 looks
  77317 up, misses, and raises \<^verbatim>\<open>DoesNotExist\<close>. The resolver is not consulted again with
  77317, although it would lead to the live municipality, and no cycle error is raised.
\<close>

theorem redirect_chain_counterexample:
  "coerce (follow insee_chain) Municipality [paris] (PStr ''insee:77316'') None =
     Inl (DoesNotExist ''Instance matching query does not exist'') \<and>
   follow insee_chain Municipality ''insee'' (PStr ''77316'') = PStr ''77317'' \<and>
   follow insee_chain Municipality ''insee'' (PStr ''77317'') = PStr ''75056'' \<and>
   coerce (follow insee_chain) Municipality [paris] (PStr ''insee:75056'') None = Inr paris"
  by (simp add: coerce_defs cls_defs)

theorem invalid_identifier_raises_DoesNotExist_witness:
  "''foo'' \<notin> set (identifiers Municipality @ [''id'', ''pk'']) \<and>
   coerce (follow insee_chain) Municipality [paris] (PStr ''foo:75056'') None =
     Inl (DoesNotExist ''Invalid identifier foo'')"
proof -
  have a: "''foo'' \<notin> set (identifiers Municipality @ [''id'', ''pk''])"
    by (simp add: cls_defs)
  have b: "CHR '':'' \<notin> set ''foo''" by simp
  from invalid_identifier_raises_DoesNotExist [OF a b, of None "follow insee_chain" "[paris]" "''75056''"] a
  show ?thesis by simp
qed

theorem coerce_single_hop_witness:
  "coerce_identifier Municipality (PStr ''insee:77316'') None = Inr (''insee'', PStr ''77316'') \<and>
   coerce (follow insee_chain) Municipality [paris] (PStr ''insee:77316'') None =
     peewee_get [paris] ''insee'' (PStr ''77317'') \<and>
   coerce (follow []) Municipality [paris] (PStr ''insee:77316'') None =
     Inl (DoesNotExist ''Instance matching query does not exist'') \<and>
   coerce (follow insee_chain) Municipality [paris] (PStr ''insee:77316'') None =
     coerce (follow (take 1 insee_chain)) Municipality [paris] (PStr ''insee:77316'') None"
proof -
  have p: "coerce_identifier Municipality (PStr ''insee:77316'') None = Inr (''insee'', PStr ''77316'')"
    by (simp add: coerce_identifier_def coerce_default_def cls_defs)
  have g: "getattr_cls Municipality ''insee'' = Inr ''insee''"
    by (simp add: getattr_cls_def cls_defs)
  have m: "peewee_get [paris] ''insee'' (PStr ''77316'') =
      Inl (DoesNotExist ''Instance matching query does not exist'')"
    by (simp add: peewee_get_def paris_def)
  have f1: "follow insee_chain Municipality ''insee'' (PStr ''77316'') = PStr ''77317''"
    by (simp add: follow_def insee_chain_def cls_defs)
  have f2: "follow [] Municipality ''insee'' (PStr ''77316'') = PNone"
    by (simp add: follow_def)
  have f3: "follow (take 1 insee_chain) Municipality ''insee'' (PStr ''77316'') = PStr ''77317''"
    by (simp add: follow_def insee_chain_def cls_defs)
  note hop = coerce_single_hop [OF p, of "follow insee_chain" "follow (take 1 insee_chain)"
      "[paris]" "''Instance matching query does not exist''"]
  note nohop = coerce_single_hop [OF p, of "follow []" "follow []" "[paris]"
      "''Instance matching query does not exist''"]
  have A: "coerce (follow insee_chain) Municipality [paris] (PStr ''insee:77316'') None =
     peewee_get [paris] ''insee'' (PStr ''77317'')"
    using hop g m f1 by simp
  have B: "coerce (follow []) Municipality [paris] (PStr ''insee:77316'') None =
     Inl (DoesNotExist ''Instance matching query does not exist'')"
    using nohop g m f2 by simp
  have C: "coerce (follow insee_chain) Municipality [paris] (PStr ''insee:77316'') None =
     coerce (follow (take 1 insee_chain)) Municipality [paris] (PStr ''insee:77316'') None"
    using hop f1 f3 by simp
  from p A B C show ?thesis by blast
qed

theorem coerce_token_lookup_witness:
  "coerce (follow []) Municipality [paris] (PStr ''ban-municipality-1'') None = Inr paris \<and>
   coerce (follow []) Municipality [paris] (PStr ''insee:75056'') None = Inr paris"
proof -
  have col: "map_of (cls_attrs Municipality) ''id'' = Some Column"
    "map_of (cls_attrs Municipality) ''insee'' = Some Column"
    by (simp_all add: cls_defs)
  have ids: "''insee'' \<in> set (identifiers Municipality @ [''id'', ''pk''])"
    by (simp add: cls_defs)
  have at: "map_of (inst_attrs paris) ''id'' = Some (PStr ''ban-municipality-1'')"
    "map_of (inst_attrs paris) ''insee'' = Some (PStr ''75056'')"
    by (simp_all add: paris_def)
  from coerce_token_lookup [of paris "[paris]" "''id''" "''ban-municipality-1''" Municipality "follow []"]
    coerce_token_lookup [of paris "[paris]" "''insee''" "''75056''" Municipality "follow []"]
    col ids at
  show ?thesis by simp
qed

theorem coerce_follows_redirect_witness:
  "follow insee_chain Municipality ''insee'' (PStr ''77317'') = PStr ''75056'' \<and>
   coerce (follow insee_chain) Municipality [paris] (PStr ''77317'') (Some ''insee'') = Inr paris \<and>
   coerce (follow insee_chain) Municipality [paris] (PStr ''insee:77317'') None = Inr paris"
proof -
  have col: "map_of (cls_attrs Municipality) ''insee'' = Some Column"
    by (simp add: cls_defs)
  have ids: "''insee'' \<in> set (identifiers Municipality @ [''id'', ''pk''])"
    by (simp add: cls_defs)
  have at: "map_of (inst_attrs paris) ''insee'' = Some (PStr ''75056'')"
    by (simp add: paris_def)
  have f: "follow insee_chain Municipality ''insee'' (PStr ''77317'') = PStr ''75056''"
    by (simp add: follow_def insee_chain_def cls_defs)
  from coerce_follows_redirect [of Municipality "''insee''" "[paris]" "''77317''"
      "follow insee_chain" "''75056''" paris] col ids at f
  show ?thesis by simp
qed

section \<open>Properties of versioned entities\<close>

lemma as_version_loop_keys:
  "as_version_loop self fs out = Inr p \<Longrightarrow> fst ` set p = fst ` set out \<union> set fs"
proof (induction fs arbitrary: out)
  case Nil
  then show ?case by simp
next
  case (Cons f fs)
  from Cons.prems obtain v where v: "compact_field self f = Inr v"
    by (auto split: sum.splits)
  with Cons.prems have "as_version_loop self fs (AList.update f v out) = Inr p"
    by simp
  from Cons.IH [OF this] show ?case
    by (auto simp: dom_update)
qed

lemma as_version_keys:
  "as_version (row_obj r) = Inr p \<Longrightarrow> fst ` set p = set (versioned_fields (row_cls r))"
  using as_version_loop_keys [of "row_obj r" "versioned_fields (row_cls r)" "[]" p]
  by (simp add: as_version_def row_obj_def)

lemma save_failure:
  assumes "save st e muts who now = (st', Inl err)"
  shows "st' = st"
  using assms
  by (auto simp: save_def Let_def split: option.splits if_splits sum.splits)

lemma save_success:
  assumes "save st e muts who now = (st', Inr e')"
  shows "\<exists>r p. map_of (rows st) (row_id (state e)) = Some r \<and> version r = locked_version e \<and>
           as_version (row_obj (state e')) = Inr p \<and>
           state e' = r\<lparr> version := locked_version e + 1,
                          field_values := set_fields muts (field_values (state e)),
                          modified_by := who, modified_at := now \<rparr> \<and>
           locked_version e' = locked_version e + 1 \<and>
           rows st' = AList.update (row_id (state e)) (state e') (rows st) \<and>
           versions st' = (versions st)
             (row_id (state e) := versions st (row_id (state e)) @
                [\<lparr> entity_id = row_id (state e), sequence = locked_version e + 1, payload = p,
                   author = who, timestamp = now \<rparr>])"
  using assms
  by (auto simp: save_def Let_def split: option.splits if_splits sum.splits)


lemma store_okD:
  assumes "store_ok st" and "map_of (rows st) i = Some r"
  shows "row_id r = i" and "1 \<le> version r"
    and "map sequence (versions st i) = [1..version r]"
    and "\<And>s. s \<in> set (versions st i) \<Longrightarrow> entity_id s = i"
    and "\<And>s. s \<in> set (versions st i) \<Longrightarrow>
           fst ` set (payload s) = set (versioned_fields (row_cls r))"
proof -
  from assms have *: "row_id r = i \<and> 1 \<le> version r \<and>
      map sequence (versions st i) = [1..version r] \<and>
      (\<forall>s \<in> set (versions st i).
         entity_id s = i \<and> fst ` set (payload s) = set (versioned_fields (row_cls r)))"
    unfolding store_ok_def by (drule_tac x = i in spec) simp
  from * show "row_id r = i" by blast
  from * show "1 \<le> version r" by blast
  from * show "map sequence (versions st i) = [1..version r]" by blast
  from * show "\<And>s. s \<in> set (versions st i) \<Longrightarrow> entity_id s = i" by blast
  from * show "\<And>s. s \<in> set (versions st i) \<Longrightarrow>
           fst ` set (payload s) = set (versioned_fields (row_cls r))" by blast
qed

lemma store_ok_noneD:
  assumes "store_ok st" and "map_of (rows st) i = None"
  shows "versions st i = []"
  using assms unfolding store_ok_def by (drule_tac x = i in spec) simp

lemma upto_snoc: "(1::int) \<le> v \<Longrightarrow> [1..v + 1] = [1..v] @ [v + 1]"
  using upto_rec2 [of 1 "v + 1"] by simp

lemma save_ok:
  assumes ok: "store_ok st" and sv: "save st e muts who now = (st', res)"
  shows "store_ok st'"
proof (cases res)
  case (Inl err)
  with sv have "st' = st" by (auto dest: save_failure)
  with ok show ?thesis by simp
next
  case (Inr e')
  define t where "t = row_id (state e)"
  from sv Inr save_success [of st e muts who now st' e']
  obtain r0 p where r0: "map_of (rows st) t = Some r0"
    and v0: "version r0 = locked_version e"
    and p: "as_version (row_obj (state e')) = Inr p"
    and st1: "state e' = r0\<lparr> version := locked_version e + 1,
                          field_values := set_fields muts (field_values (state e)),
                          modified_by := who, modified_at := now \<rparr>"
    and rows': "rows st' = AList.update t (state e') (rows st)"
    and vers': "versions st' = (versions st)
             (t := versions st t @
                [\<lparr> entity_id = t, sequence = locked_version e + 1, payload = p,
                   author = who, timestamp = now \<rparr>])"
    unfolding t_def by blast
  note d = store_okD [OF ok r0]
  have cls1: "row_cls (state e') = row_cls r0" and id1: "row_id (state e') = t"
    and ver1: "version (state e') = version r0 + 1"
    using st1 v0 d(1) by simp_all
  have keys: "fst ` set p = set (versioned_fields (row_cls r0))"
    using as_version_keys [OF p] cls1 by simp
  show ?thesis
    unfolding store_ok_def
  proof (intro allI)
    fix j
    show "case map_of (rows st') j of
            None \<Rightarrow> versions st' j = []
          | Some r \<Rightarrow>
              row_id r = j \<and> 1 \<le> version r \<and>
              map sequence (versions st' j) = [1..version r] \<and>
              (\<forall>s \<in> set (versions st' j).
                 entity_id s = j \<and>
                 fst ` set (payload s) = set (versioned_fields (row_cls r)))"
    proof (cases "j = t")
      case True
      have m: "map_of (rows st') j = Some (state e')"
        using True rows' by (simp add: update_conv')
      have s: "map sequence (versions st' j) = [1..version (state e')]"
        using True vers' d(2,3) ver1 v0 by (simp add: upto_snoc)
      have k: "\<forall>s \<in> set (versions st' j).
                 entity_id s = j \<and>
                 fst ` set (payload s) = set (versioned_fields (row_cls (state e')))"
        using True vers' d(4,5) keys cls1 by auto
      from m s k id1 ver1 d(2) True show ?thesis by simp
    next
      case False
      have m: "map_of (rows st') j = map_of (rows st) j"
        using False rows' by (simp add: update_conv')
      have v: "versions st' j = versions st j"
        using False vers' by simp
      from ok have "case map_of (rows st) j of
            None \<Rightarrow> versions st j = []
          | Some r \<Rightarrow>
              row_id r = j \<and> 1 \<le> version r \<and>
              map sequence (versions st j) = [1..version r] \<and>
              (\<forall>s \<in> set (versions st j).
                 entity_id s = j \<and>
                 fst ` set (payload s) = set (versioned_fields (row_cls r)))"
        unfolding store_ok_def by blast
      then show ?thesis unfolding m v .
    qed
  qed
qed


lemma save_row:
  assumes ok: "store_ok st" and sv: "save st e muts who now = (st', res)"
    and r: "map_of (rows st) i = Some r"
  shows "\<exists>r'. map_of (rows st') i = Some r' \<and>
           version r' = version r + (if saved i res then 1 else 0) \<and>
           row_cls r' = row_cls r"
proof (cases res)
  case (Inl err)
  with sv have "st' = st" by (auto dest: save_failure)
  with r Inl show ?thesis by simp
next
  case (Inr e')
  define t where "t = row_id (state e)"
  from sv Inr save_success [of st e muts who now st' e']
  obtain r0 where r0: "map_of (rows st) t = Some r0"
    and v0: "version r0 = locked_version e"
    and st1: "state e' = r0\<lparr> version := locked_version e + 1,
                          field_values := set_fields muts (field_values (state e)),
                          modified_by := who, modified_at := now \<rparr>"
    and rows': "rows st' = AList.update t (state e') (rows st)"
    unfolding t_def by blast
  have id1: "row_id (state e') = t"
    using st1 store_okD(1) [OF ok r0] by simp
  show ?thesis
  proof (cases "i = t")
    case True
    with r r0 have "r = r0" by simp
    moreover have "map_of (rows st') i = Some (state e')"
      using True rows' by (simp add: update_conv')
    ultimately show ?thesis
      using st1 v0 id1 True Inr by simp
  next
    case False
    then have "map_of (rows st') i = Some r"
      using rows' r by (simp add: update_conv')
    with False id1 Inr show ?thesis by auto
  qed
qed

lemma create_failure:
  assumes "create st cls hex flds who now = (st', Inl err)"
  shows "st' = st"
  using assms
  by (auto simp: create_def Let_def split: if_splits sum.splits)

lemma create_success:
  assumes "create st cls hex flds who now = (st', Inr e)"
  shows "\<exists>p. map_of (rows st) (make_id cls hex) = None \<and>
           as_version (row_obj (state e)) = Inr p \<and>
           state e = \<lparr> row_cls = cls, row_id = make_id cls hex, version = 1, field_values = flds,
                created_by = who, created_at = now, modified_by = who, modified_at = now \<rparr> \<and>
           locked_version e = 1 \<and>
           rows st' = rows st @ [(make_id cls hex, state e)] \<and>
           versions st' = (versions st)
             (make_id cls hex := versions st (make_id cls hex) @
                [\<lparr> entity_id = make_id cls hex, sequence = 1, payload = p,
                   author = who, timestamp = now \<rparr>])"
  using assms
  by (auto simp: create_def Let_def acquire_def split: if_splits sum.splits)

lemma empty_store_ok: "store_ok empty_store"
  by (simp add: store_ok_def empty_store_def)

lemma create_ok:
  assumes ok: "store_ok st" and cr: "create st cls hex flds who now = (st', res)"
  shows "store_ok st'"
proof (cases res)
  case (Inl err)
  with cr have "st' = st" by (auto dest: create_failure)
  with ok show ?thesis by simp
next
  case (Inr e)
  define t where "t = make_id cls hex"
  from cr Inr create_success [of st cls hex flds who now st' e]
  obtain p where fresh: "map_of (rows st) t = None"
    and p: "as_version (row_obj (state e)) = Inr p"
    and st1: "state e = \<lparr> row_cls = cls, row_id = t, version = 1, field_values = flds,
                created_by = who, created_at = now, modified_by = who, modified_at = now \<rparr>"
    and rows': "rows st' = rows st @ [(t, state e)]"
    and vers': "versions st' = (versions st)
             (t := versions st t @
                [\<lparr> entity_id = t, sequence = 1, payload = p,
                   author = who, timestamp = now \<rparr>])"
    unfolding t_def by blast
  have nolog: "versions st t = []"
    using ok fresh by (rule store_ok_noneD)
  have keys: "fst ` set p = set (versioned_fields (row_cls (state e)))"
    using as_version_keys [OF p] .
  show ?thesis
    unfolding store_ok_def
  proof (intro allI)
    fix j
    show "case map_of (rows st') j of
            None \<Rightarrow> versions st' j = []
          | Some r \<Rightarrow>
              row_id r = j \<and> 1 \<le> version r \<and>
              map sequence (versions st' j) = [1..version r] \<and>
              (\<forall>s \<in> set (versions st' j).
                 entity_id s = j \<and>
                 fst ` set (payload s) = set (versioned_fields (row_cls r)))"
    proof (cases "j = t")
      case True
      have m: "map_of (rows st') j = Some (state e)"
        using True rows' fresh by (simp add: map_add_def)
      have v: "versions st' j = [\<lparr> entity_id = t, sequence = 1, payload = p,
                   author = who, timestamp = now \<rparr>]"
        using True vers' nolog by simp
      have one: "[1..version (state e)] = [1]" and id1: "row_id (state e) = t"
        and ver1: "version (state e) = 1"
        using st1 by simp_all
      from m v one id1 ver1 keys True show ?thesis by simp
    next
      case False
      have m: "map_of (rows st') j = map_of (rows st) j"
        using False rows' by (simp add: map_add_def split: option.splits)
      have v: "versions st' j = versions st j"
        using False vers' by simp
      from ok have "case map_of (rows st) j of
            None \<Rightarrow> versions st j = []
          | Some r \<Rightarrow>
              row_id r = j \<and> 1 \<le> version r \<and>
              map sequence (versions st j) = [1..version r] \<and>
              (\<forall>s \<in> set (versions st j).
                 entity_id s = j \<and>
                 fst ` set (payload s) = set (versioned_fields (row_cls r)))"
        unfolding store_ok_def by blast
      then show ?thesis unfolding m v .
    qed
  qed
qed


lemma run_saves_row:
  "store_ok st \<Longrightarrow> run_saves st atts = (st', ress) \<Longrightarrow> map_of (rows st) i = Some r \<Longrightarrow>
   store_ok st' \<and>
   (\<exists>r'. map_of (rows st') i = Some r' \<and>
         version r' = version r + int (successes i ress) \<and> row_cls r' = row_cls r)"
proof (induction atts arbitrary: st ress r)
  case Nil
  then show ?case by (simp add: successes_def)
next
  case (Cons a atts)
  obtain e muts who now where a: "a = (e, muts, who, now)"
    by (cases a) auto
  obtain st1 res where sv: "save st e muts who now = (st1, res)"
    by (cases "save st e muts who now") auto
  obtain st2 ress' where rs: "run_saves st1 atts = (st2, ress')"
    by (cases "run_saves st1 atts") auto
  from Cons.prems(2) a sv rs have eqs: "st' = st2" "ress = res # ress'"
    by simp_all
  have ok1: "store_ok st1"
    using Cons.prems(1) sv by (rule save_ok)
  from save_row [OF Cons.prems(1) sv Cons.prems(3)]
  obtain r1 where r1: "map_of (rows st1) i = Some r1"
    and v1: "version r1 = version r + (if saved i res then 1 else 0)"
    and c1: "row_cls r1 = row_cls r"
    by blast
  from rs eqs(1) have rs': "run_saves st1 atts = (st', ress')"
    by simp
  from Cons.IH [OF ok1 rs' r1]
  obtain r2 where ok2: "store_ok st'" and r2: "map_of (rows st') i = Some r2"
    and v2: "version r2 = version r1 + int (successes i ress')"
    and c2: "row_cls r2 = row_cls r1"
    by blast
  have "version r2 = version r + int (successes i ress)"
    using v1 v2 eqs(2) by (simp add: successes_def)
  with ok2 r2 c1 c2 show ?case by simp
qed

text \<open>
  Claim C2. After the creation of an entity and any sequence of save attempts of which \<open>N\<close>
  succeed on that entity, the entity starts at version 1, its persisted version is
  \<open>1 + N\<close>, and its history has \<open>N + 1\<close> snapshots with the sequence numbers 1 to \<open>N + 1\<close>
  in ascending order.
\<close>

theorem version_counts_saves:
  assumes "store_ok st" and "create st cls hex flds who now = (st0, Inr e0)"
    and "run_saves st0 atts = (st1, ress)"
  shows "version (state e0) = 1 \<and>
         (\<exists>r. map_of (rows st1) (row_id (state e0)) = Some r \<and>
              version r = 1 + int (successes (row_id (state e0)) ress)) \<and>
         map sequence (history st1 (row_id (state e0))) =
           [1..1 + int (successes (row_id (state e0)) ress)] \<and>
         length (history st1 (row_id (state e0))) = successes (row_id (state e0)) ress + 1"
proof -
  define i where "i = row_id (state e0)"
  from create_success [OF assms(2)]
  have fresh: "map_of (rows st) (make_id cls hex) = None"
    and id0: "row_id (state e0) = make_id cls hex" and v0: "version (state e0) = 1"
    and rows0: "rows st0 = rows st @ [(make_id cls hex, state e0)]"
    by auto
  have ok0: "store_ok st0"
    using assms(1,2) by (rule create_ok)
  have r0: "map_of (rows st0) i = Some (state e0)"
    using rows0 fresh id0 by (simp add: i_def map_add_def)
  from run_saves_row [OF ok0 assms(3) r0]
  obtain r1 where ok1: "store_ok st1" and r1: "map_of (rows st1) i = Some r1"
    and v1: "version r1 = version (state e0) + int (successes i ress)"
    by blast
  have seqs: "map sequence (versions st1 i) = [1..version r1]"
    using ok1 r1 by (rule store_okD(3))
  have "length (map sequence (versions st1 i)) = successes i ress + 1"
    unfolding seqs using v0 v1 by simp
  then have len: "length (versions st1 i) = successes i ress + 1"
    by simp
  from v0 r1 v1 seqs len show ?thesis
    unfolding i_def [symmetric] history_def by simp
qed


lemma save_stale:
  assumes "map_of (rows st) (row_id (state e)) = Some r" and "locked_version e \<noteq> version r"
  shows "save st e muts who now = (st, Inl Conflict)"
  using assms by (auto simp: save_def)

text \<open>
  Claim C1. A save whose locked version differs from the version persisted for the entity
  returns \<^verbatim>\<open>Conflict\<close>, which is neither the not-found nor the validation error, and the
  store it leaves is the store it found: the same row (version and field values) and the
  same number of snapshots.
\<close>

theorem stale_save_conflicts:
  assumes "map_of (rows st) (row_id (state e)) = Some r" and "locked_version e \<noteq> version r"
  shows "save st e muts who now = (st, Inl Conflict) \<and>
         (\<forall>m. Conflict \<noteq> DoesNotExist m) \<and> (\<forall>m. Conflict \<noteq> ValidationError m) \<and>
         map_of (rows (fst (save st e muts who now))) (row_id (state e)) = Some r \<and>
         length (history (fst (save st e muts who now)) (row_id (state e))) =
           length (history st (row_id (state e)))"
  using save_stale [OF assms, of muts who now] assms(1) by simp

text \<open>
  Claim C8. An entity loaded by \<^verbatim>\<open>get\<close> or by \<^verbatim>\<open>select\<close> carries as locked version the
  version of the row it was loaded from. After a successful save the returned entity has
  version \<^verbatim>\<open>locked_version + 1\<close> and a lock equal to it, and the row written is the
  entity's state alone: loading it again gives the returned entity, so the lock is derived
  from the persisted version and not stored.
\<close>

theorem locked_version_tracks_persisted:
  "(get_entity st i = Inr e \<longrightarrow>
      map_of (rows st) i = Some (state e) \<and> locked_version e = version (state e)) \<and>
   (e \<in> set (select_entities st) \<longrightarrow>
      (\<exists>i. (i, state e) \<in> set (rows st)) \<and> locked_version e = version (state e)) \<and>
   (save st e muts who now = (st', Inr e') \<longrightarrow>
      version (state e') = locked_version e + 1 \<and>
      locked_version e' = version (state e') \<and>
      map_of (rows st') (row_id (state e)) = Some (state e') \<and>
      get_entity st' (row_id (state e)) = Inr e')"
proof (intro conjI impI)
  assume g: "get_entity st i = Inr e"
  then show "map_of (rows st) i = Some (state e)"
    by (auto simp: get_entity_def acquire_def split: option.splits)
  from g show "locked_version e = version (state e)"
    by (auto simp: get_entity_def acquire_def split: option.splits)
next
  assume s: "e \<in> set (select_entities st)"
  then show "\<exists>i. (i, state e) \<in> set (rows st)"
    by (auto simp: select_entities_def acquire_def)
  from s show "locked_version e = version (state e)"
    by (auto simp: select_entities_def acquire_def)
next
  assume sv: "save st e muts who now = (st', Inr e')"
  from save_success [OF sv]
  obtain r where st1: "state e' = r\<lparr> version := locked_version e + 1,
                          field_values := set_fields muts (field_values (state e)),
                          modified_by := who, modified_at := now \<rparr>"
    and l1: "locked_version e' = locked_version e + 1"
    and rows': "rows st' = AList.update (row_id (state e)) (state e') (rows st)"
    by blast
  from st1 show v: "version (state e') = locked_version e + 1" by simp
  with l1 show l: "locked_version e' = version (state e')" by simp
  from rows' show m: "map_of (rows st') (row_id (state e)) = Some (state e')"
    by (simp add: update_conv')
  from m l show "get_entity st' (row_id (state e)) = Inr e'"
    by (simp add: get_entity_def acquire_def)
qed

lemma versioned_fields_Municipality:
  "versioned_fields Municipality =
     [''name'', ''alias'', ''insee'', ''siren'', ''version'', ''created_at'', ''created_by'',
      ''modified_at'', ''modified_by'', ''attributes'', ''id'']"
  by (simp add: versioned_fields_def cls_defs)

lemmas view_defs = as_version_def row_obj_def versioned_fields_Municipality compact_field_def
  getattr_inst_def getattr_default_def Let_def

lemma make_id_moret: "make_id Municipality ''1f'' = ''ban-municipality-1f''"
  by (simp add: make_id_def lower_def lower_char_def cls_defs)

lemma create_moret:
  "create empty_store Municipality ''1f'' moret_fields ''s1'' 10 = (store1, Inr moret)"
proof -
  have "snd (create empty_store Municipality ''1f'' moret_fields ''s1'' 10) = Inr moret"
    by (simp add: create_def make_id_moret empty_store_def moret_def acquire_def
        moret_fields_def view_defs)
  then show ?thesis
    by (simp add: store1_def prod_eq_iff)
qed

lemma rows_store1: "rows store1 = [(''ban-municipality-1f'', state moret)]"
  by (simp add: store1_def create_def make_id_moret empty_store_def moret_def
      moret_fields_def view_defs)

lemma save_moret:
  "save store1 moret [(''name'', PStr ''Orvanne'')] ''s2'' 20 = (store2, Inr orvanne)"
proof -
  have "snd (save store1 moret [(''name'', PStr ''Orvanne'')] ''s2'' 20) = Inr orvanne"
    by (simp add: save_def rows_store1 moret_def orvanne_def set_fields_def
        moret_fields_def view_defs)
  then show ?thesis
    by (simp add: store2_def prod_eq_iff)
qed

lemma rows_store2: "rows store2 = [(''ban-municipality-1f'', state orvanne)]"
  by (simp add: store2_def save_def rows_store1 moret_def orvanne_def set_fields_def
      moret_fields_def view_defs)


lemma compute_keys:
  "fst ` set (compute a b tracked) = {f \<in> set tracked. map_of a f \<noteq> map_of b f}"
  by (auto simp: compute_def image_iff)

lemma compute_entry:
  "map_of (compute a b tracked) f =
     (if f \<in> set tracked \<and> map_of a f \<noteq> map_of b f then Some (map_of a f, map_of b f)
      else None)"
  by (simp add: compute_def map_of_map_restrict restrict_map_def)

lemma history_sequence:
  assumes "store_ok st" and "map_of (rows st) i = Some r" and "k < length (history st i)"
  shows "sequence (history st i ! k) = 1 + int k"
proof -
  have seqs: "map sequence (versions st i) = [1..version r]"
    using assms(1,2) by (rule store_okD(3))
  have k: "k < length (versions st i)"
    using assms(3) by (simp add: history_def)
  then have "k < length [1..version r]"
    using seqs by (metis length_map)
  then have "1 + int k \<le> version r" by simp
  then have "[1..version r] ! k = 1 + int k" by (rule nth_upto)
  moreover have "map sequence (versions st i) ! k = sequence (versions st i ! k)"
    using k by simp
  ultimately show ?thesis
    using seqs by (simp add: history_def)
qed

lemma predecessor_adjacent:
  assumes ok: "store_ok st" and r: "map_of (rows st) i = Some r"
    and k: "Suc k < length (history st i)"
  shows "predecessor st (history st i ! Suc k) = Some (history st i ! k)"
proof -
  let ?h = "history st i"
  have mem: "?h ! Suc k \<in> set (versions st i)"
    using k by (simp add: history_def)
  have eid: "entity_id (?h ! Suc k) = i"
    using store_okD(4) [OF ok r mem] .
  have sk: "sequence (?h ! Suc k) = 2 + int k"
    using history_sequence [OF ok r k] by simp
  have "find (\<lambda>s. sequence s + 1 = 2 + int k) ?h = Some (?h ! k)"
    unfolding find_Some_iff
  proof (intro exI [of _ k] conjI allI impI)
    show "k < length ?h" using k by simp
    show "sequence (?h ! k) + 1 = 2 + int k"
      using history_sequence [OF ok r, of k] k by simp
    show "?h ! k = ?h ! k" ..
    fix j assume "j < k"
    then show "sequence (?h ! j) + 1 \<noteq> 2 + int k"
      using history_sequence [OF ok r, of j] k by simp
  qed
  then show ?thesis
    using eid sk by (simp add: predecessor_def history_def)
qed

lemma diff_of_adjacent:
  assumes ok: "store_ok st" and r: "map_of (rows st) i = Some r"
    and k: "Suc k < length (history st i)"
  shows "diff_of st (history st i ! Suc k) =
           Inr (diff_between (row_cls r) (history st i ! k) (history st i ! Suc k))"
proof -
  have mem: "history st i ! Suc k \<in> set (versions st i)"
    using k by (simp add: history_def)
  have eid: "entity_id (history st i ! Suc k) = i"
    using store_okD(4) [OF ok r mem] .
  show ?thesis
    using predecessor_adjacent [OF ok r k] eid r
    by (simp add: diff_of_def diff_between_def)
qed

lemma payload_absent:
  assumes ok: "store_ok st" and r: "map_of (rows st) i = Some r"
    and k: "k < length (history st i)" and f: "f \<notin> set (versioned_fields (row_cls r))"
  shows "map_of (payload (history st i ! k)) f = None"
proof -
  have mem: "history st i ! k \<in> set (versions st i)"
    using k by (simp add: history_def)
  have "fst ` set (payload (history st i ! k)) = set (versioned_fields (row_cls r))"
    using store_okD(5) [OF ok r mem] .
  with f show ?thesis by (simp add: map_of_eq_None_iff)
qed


lemma version_not_in_compute:
  "''version'' \<notin> fst ` set (compute a b (diffable_fields cls))"
  by (simp add: compute_keys diffable_fields_def metadata_fields_def)

text \<open>
  Claim C3, as amended. For adjacent snapshots \<open>k\<close> and \<open>k + 1\<close> of an entity, the diff of
  snapshot \<open>k + 1\<close> is the diff between the two, and it contains a field \<open>F\<close> exactly when
  \<open>F\<close> is not a metadata field (the version, the creation and modification author and
  timestamp) and the serialised value of \<open>F\<close> differs between the two payloads; a field
  assigned a value equal to its previous one is therefore absent.
\<close>

theorem diff_contains_changed_fields:
  assumes "store_ok st" and "map_of (rows st) i = Some r"
    and "Suc k < length (history st i)"
  shows "diff_of st (history st i ! Suc k) =
           Inr (diff_between (row_cls r) (history st i ! k) (history st i ! Suc k)) \<and>
         (F \<in> fst ` set (diff_between (row_cls r) (history st i ! k) (history st i ! Suc k)) \<longleftrightarrow>
            F \<notin> set metadata_fields \<and>
            map_of (payload (history st i ! k)) F \<noteq> map_of (payload (history st i ! Suc k)) F)"
proof (intro conjI)
  show "diff_of st (history st i ! Suc k) =
      Inr (diff_between (row_cls r) (history st i ! k) (history st i ! Suc k))"
    using assms by (rule diff_of_adjacent)
next
  show "F \<in> fst ` set (diff_between (row_cls r) (history st i ! k) (history st i ! Suc k)) \<longleftrightarrow>
      F \<notin> set metadata_fields \<and>
      map_of (payload (history st i ! k)) F \<noteq> map_of (payload (history st i ! Suc k)) F"
  proof (cases "F \<in> set (versioned_fields (row_cls r))")
    case True
    then show ?thesis
      by (auto simp: diff_between_def compute_keys diffable_fields_def)
  next
    case False
    have "map_of (payload (history st i ! k)) F = None"
      using assms(1,2) _ False by (rule payload_absent) (use assms(3) in simp)
    moreover have "map_of (payload (history st i ! Suc k)) F = None"
      using assms(1,2,3) False by (rule payload_absent)
    ultimately show ?thesis
      using False by (auto simp: diff_between_def compute_keys diffable_fields_def)
  qed
qed

text \<open>
  Claim C9. No diff contains the version field: neither the diff between two snapshots nor
  the diff of a snapshot; and between adjacent snapshots of an entity the sequence number,
  the entity's version at the time, does differ, by one.
\<close>

theorem version_never_in_diff:
  "''version'' \<notin> fst ` set (diff_between cls old_snap new_snap) \<and>
   (diff_of st snap = Inr d \<longrightarrow> ''version'' \<notin> fst ` set d) \<and>
   (store_ok st \<and> map_of (rows st) i = Some r \<and> Suc k < length (history st i) \<longrightarrow>
      sequence (history st i ! Suc k) = sequence (history st i ! k) + 1 \<and>
      ''version'' \<notin> fst ` set (diff_between (row_cls r) (history st i ! k) (history st i ! Suc k)))"
proof (intro conjI impI)
  show "''version'' \<notin> fst ` set (diff_between cls old_snap new_snap)"
    by (simp add: diff_between_def compute_keys diffable_fields_def metadata_fields_def)
  show "''version'' \<notin> fst ` set (diff_between (row_cls r) (history st i ! k) (history st i ! Suc k))"
    by (simp add: diff_between_def compute_keys diffable_fields_def metadata_fields_def)
next
  assume "diff_of st snap = Inr d"
  then obtain a c where "d = compute a (payload snap) (diffable_fields c)"
    by (auto simp: diff_of_def split: option.splits)
  then show "''version'' \<notin> fst ` set d"
    by (simp add: version_not_in_compute)
next
  assume a: "store_ok st \<and> map_of (rows st) i = Some r \<and> Suc k < length (history st i)"
  then have "sequence (history st i ! Suc k) = 1 + int (Suc k)"
    by (intro history_sequence [of st i r]) simp_all
  moreover from a have "sequence (history st i ! k) = 1 + int k"
    by (intro history_sequence [of st i r]) simp_all
  ultimately show "sequence (history st i ! Suc k) = sequence (history st i ! k) + 1"
    by simp
qed


lemma store1_ok: "store_ok store1"
  using empty_store_ok create_moret by (rule create_ok)

lemma store2_ok: "store_ok store2"
  using store1_ok save_moret by (rule save_ok)

lemma row_store2: "map_of (rows store2) ''ban-municipality-1f'' = Some (state orvanne)"
  by (simp add: rows_store2)

lemma history_store1:
  "history store1 ''ban-municipality-1f'' =
     [\<lparr> entity_id = ''ban-municipality-1f'', sequence = 1,
         payload =
           [(''name'', PStr ''Moret-sur-Loing''), (''alias'', PNone),
            (''insee'', PStr ''77316''), (''siren'', PNone), (''version'', PInt 1),
            (''created_at'', PInt 10), (''created_by'', PStr ''s1''),
            (''modified_at'', PInt 10), (''modified_by'', PStr ''s1''),
            (''attributes'', PNone), (''id'', PStr ''ban-municipality-1f'')],
         author = ''s1'', timestamp = 10 \<rparr>]"
  by (simp add: history_def store1_def create_def make_id_moret empty_store_def
      moret_fields_def view_defs)

lemma history_store2:
  "history store2 ''ban-municipality-1f'' =
     [\<lparr> entity_id = ''ban-municipality-1f'', sequence = 1,
         payload =
           [(''name'', PStr ''Moret-sur-Loing''), (''alias'', PNone),
            (''insee'', PStr ''77316''), (''siren'', PNone), (''version'', PInt 1),
            (''created_at'', PInt 10), (''created_by'', PStr ''s1''),
            (''modified_at'', PInt 10), (''modified_by'', PStr ''s1''),
            (''attributes'', PNone), (''id'', PStr ''ban-municipality-1f'')],
         author = ''s1'', timestamp = 10 \<rparr>,
      \<lparr> entity_id = ''ban-municipality-1f'', sequence = 2,
         payload =
           [(''name'', PStr ''Orvanne''), (''alias'', PNone),
            (''insee'', PStr ''77316''), (''siren'', PNone), (''version'', PInt 2),
            (''created_at'', PInt 10), (''created_by'', PStr ''s1''),
            (''modified_at'', PInt 20), (''modified_by'', PStr ''s2''),
            (''attributes'', PNone), (''id'', PStr ''ban-municipality-1f'')],
         author = ''s2'', timestamp = 20 \<rparr>]"
  using history_store1
  by (simp add: history_def store2_def save_def rows_store1 moret_def set_fields_def
      moret_fields_def view_defs)

theorem stale_save_conflicts_witness:
  "locked_version moret \<noteq> version (state orvanne) \<and>
   save store2 moret [(''insee'', PStr ''77317'')] ''s3'' 30 = (store2, Inl Conflict) \<and>
   length (history (fst (save store2 moret [(''insee'', PStr ''77317'')] ''s3'' 30))
     ''ban-municipality-1f'') = 2"
proof -
  have r: "map_of (rows store2) (row_id (state moret)) = Some (state orvanne)"
    by (simp add: rows_store2 moret_def)
  have l: "locked_version moret \<noteq> version (state orvanne)"
    by (simp add: moret_def orvanne_def)
  have i: "row_id (state moret) = ''ban-municipality-1f''"
    by (simp add: moret_def)
  from stale_save_conflicts [OF r l, of "[(''insee'', PStr ''77317'')]" "''s3''" 30] l i
    history_store2
  show ?thesis by simp
qed

lemma run_saves_moret:
  "run_saves store1
     [(moret, [(''name'', PStr ''Orvanne'')], ''s2'', 20),
      (moret, [(''insee'', PStr ''77317'')], ''s3'', 30)] =
   (store2, [Inr orvanne, Inl Conflict])"
proof -
  have r: "map_of (rows store2) (row_id (state moret)) = Some (state orvanne)"
    by (simp add: rows_store2 moret_def)
  have l: "locked_version moret \<noteq> version (state orvanne)"
    by (simp add: moret_def orvanne_def)
  show ?thesis
    using save_moret save_stale [OF r l] by simp
qed

theorem version_counts_saves_witness:
  "(\<exists>r. map_of (rows store2) ''ban-municipality-1f'' = Some r \<and> version r = 2) \<and>
   map sequence (history store2 ''ban-municipality-1f'') = [1..2] \<and>
   length (history store2 ''ban-municipality-1f'') = 2"
proof -
  have i: "row_id (state moret) = ''ban-municipality-1f''"
    by (simp add: moret_def)
  have n: "successes ''ban-municipality-1f'' [Inr orvanne, Inl Conflict] = 1"
    by (simp add: successes_def orvanne_def)
  from version_counts_saves [OF empty_store_ok create_moret run_saves_moret] i n
  show ?thesis by simp
qed


lemma length_history_store2: "Suc 0 < length (history store2 ''ban-municipality-1f'')"
  by (simp add: history_store2)

lemma cls_orvanne: "row_cls (state orvanne) = Municipality"
  by (simp add: orvanne_def)

theorem locked_version_tracks_persisted_witness:
  "get_entity store2 ''ban-municipality-1f'' = Inr orvanne \<and>
   orvanne \<in> set (select_entities store2) \<and>
   save store1 moret [(''name'', PStr ''Orvanne'')] ''s2'' 20 = (store2, Inr orvanne) \<and>
   locked_version moret + 1 = 2 \<and> version (state orvanne) = 2 \<and> locked_version orvanne = 2"
proof -
  have g: "get_entity store2 ''ban-municipality-1f'' = Inr orvanne"
    by (simp add: get_entity_def rows_store2 acquire_def orvanne_def)
  have s: "orvanne \<in> set (select_entities store2)"
    by (simp add: select_entities_def rows_store2 acquire_def orvanne_def)
  have l: "locked_version moret + 1 = 2"
    by (simp add: moret_def)
  from locked_version_tracks_persisted [of store2 "''ban-municipality-1f''" orvanne]
    locked_version_tracks_persisted
      [of store1 _ moret "[(''name'', PStr ''Orvanne'')]" "''s2''" 20 store2 orvanne]
    g s save_moret l
  show ?thesis by simp
qed

theorem diff_contains_changed_fields_witness:
  "diff_of store2 (history store2 ''ban-municipality-1f'' ! 1) =
     Inr (diff_between Municipality (history store2 ''ban-municipality-1f'' ! 0)
            (history store2 ''ban-municipality-1f'' ! 1)) \<and>
   ''name'' \<in> fst ` set (diff_between Municipality (history store2 ''ban-municipality-1f'' ! 0)
            (history store2 ''ban-municipality-1f'' ! 1)) \<and>
   ''insee'' \<notin> fst ` set (diff_between Municipality (history store2 ''ban-municipality-1f'' ! 0)
            (history store2 ''ban-municipality-1f'' ! 1)) \<and>
   ''modified_at'' \<notin> fst ` set (diff_between Municipality
            (history store2 ''ban-municipality-1f'' ! 0)
            (history store2 ''ban-municipality-1f'' ! 1))"
proof -
  note t = diff_contains_changed_fields [OF store2_ok row_store2 length_history_store2]
  have m: "''name'' \<notin> set metadata_fields" "''modified_at'' \<in> set metadata_fields"
    by (simp_all add: metadata_fields_def)
  have n: "map_of (payload (history store2 ''ban-municipality-1f'' ! 0)) ''name'' \<noteq>
           map_of (payload (history store2 ''ban-municipality-1f'' ! Suc 0)) ''name''"
    by (simp add: history_store2)
  have i: "map_of (payload (history store2 ''ban-municipality-1f'' ! 0)) ''insee'' =
           map_of (payload (history store2 ''ban-municipality-1f'' ! Suc 0)) ''insee''"
    by (simp add: history_store2)
  from t [of "''name''"] t [of "''insee''"] t [of "''modified_at''"] n i m cls_orvanne
  show ?thesis by simp
qed

text \<open>
  Claim C3 as stated fails for the metadata: the payloads \<^verbatim>\<open>as_version\<close> builds hold the
  version and the modification time, which differ between the first and the second
  snapshot, and the diff contains neither; its only entry is the name, as the tests
  assert.
\<close>

theorem diff_omits_version_counterexample:
  "map_of (payload (history store2 ''ban-municipality-1f'' ! 0)) ''version'' = Some (PInt 1) \<and>
   map_of (payload (history store2 ''ban-municipality-1f'' ! 1)) ''version'' = Some (PInt 2) \<and>
   map_of (payload (history store2 ''ban-municipality-1f'' ! 0)) ''modified_at'' = Some (PInt 10) \<and>
   map_of (payload (history store2 ''ban-municipality-1f'' ! 1)) ''modified_at'' = Some (PInt 20) \<and>
   diff_of store2 (history store2 ''ban-municipality-1f'' ! 1) =
     Inr (diff_between Municipality (history store2 ''ban-municipality-1f'' ! 0)
            (history store2 ''ban-municipality-1f'' ! 1)) \<and>
   diff_between Municipality (history store2 ''ban-municipality-1f'' ! 0)
       (history store2 ''ban-municipality-1f'' ! 1) =
     [(''name'', (Some (PStr ''Moret-sur-Loing''), Some (PStr ''Orvanne'')))]"
proof -
  have a: "map_of (payload (history store2 ''ban-municipality-1f'' ! 0)) ''version'' = Some (PInt 1)"
    "map_of (payload (history store2 ''ban-municipality-1f'' ! 1)) ''version'' = Some (PInt 2)"
    by (simp_all add: history_store2)
  have b: "map_of (payload (history store2 ''ban-municipality-1f'' ! 0)) ''modified_at'' = Some (PInt 10)"
    "map_of (payload (history store2 ''ban-municipality-1f'' ! 1)) ''modified_at'' = Some (PInt 20)"
    by (simp_all add: history_store2)
  have c: "diff_of store2 (history store2 ''ban-municipality-1f'' ! 1) =
     Inr (diff_between Municipality (history store2 ''ban-municipality-1f'' ! 0)
            (history store2 ''ban-municipality-1f'' ! 1))"
    using diff_of_adjacent [OF store2_ok row_store2 length_history_store2] cls_orvanne
    by simp
  have d: "diff_between Municipality (history store2 ''ban-municipality-1f'' ! 0)
       (history store2 ''ban-municipality-1f'' ! 1) =
     [(''name'', (Some (PStr ''Moret-sur-Loing''), Some (PStr ''Orvanne'')))]"
    by (simp add: history_store2 diff_between_def compute_def diffable_fields_def
        metadata_fields_def versioned_fields_Municipality)
  from a b c d show ?thesis by blast
qed

theorem version_never_in_diff_witness:
  "sequence (history store2 ''ban-municipality-1f'' ! 1) = 2 \<and>
   sequence (history store2 ''ban-municipality-1f'' ! 0) = 1 \<and>
   ''version'' \<notin> fst ` set (diff_between Municipality (history store2 ''ban-municipality-1f'' ! 0)
            (history store2 ''ban-municipality-1f'' ! 1))"
proof -
  have s: "sequence (history store2 ''ban-municipality-1f'' ! 0) = 1"
    by (simp add: history_store2)
  from version_never_in_diff [of Municipality "history store2 ''ban-municipality-1f'' ! 0"
      "history store2 ''ban-municipality-1f'' ! 1" store2 "history store2 ''ban-municipality-1f'' ! 1"
      "[]" "''ban-municipality-1f''" "state orvanne" 0]
    store2_ok row_store2 length_history_store2 s
  show ?thesis by simp
qed

end
